theory Spec2Isabelle
  imports Main "HOL-Library.Word" "HOL-Library.Sublist"
begin

section \<open>JSON to PostgreSQL loader: the embedding of create\_table.py\<close>

text \<open>
  The program reads a JSON file, derives a table definition from the first record, recreates
  the table and inserts every record. The model starts from the value returned by
  \<^verbatim>\<open>json.load\<close> (reading and parsing the file are outside it) and records every call
  made on the database driver in a trace.

  Python strings are sequences of code points. They are modelled as HOL strings, whose
  characters are the code points below 256; on that range \<open>lower\<close> below is exactly Python's
  \<^verbatim>\<open>str.lower\<close>. Field names, table names and string values with code points from 256
  on are outside the model.
\<close>

subsection \<open>Values produced by json.load\<close>

text \<open>
  A float is carried as its IEEE 754 binary64 bit pattern: the program never computes with
  it. A dict is an association list in insertion order; Python's dicts have distinct keys,
  which no theorem below relies on.
\<close>

datatype json =
    JNull
  | JBool bool
  | JInt int
  | JFloat "64 word"
  | JStr string
  | JArr "json list"
  | JObj "(string \<times> json) list"

datatype error =
    IndexError
  | KeyError
  | TypeError
  | AttributeError
  | StopIteration
  | DatabaseError

text \<open>\<^verbatim>\<open>isinstance\<close>: \<^verbatim>\<open>bool\<close> is a subclass of \<^verbatim>\<open>int\<close> in Python.\<close>

fun isinstance_bool :: "json \<Rightarrow> bool" where
  "isinstance_bool (JBool b) = True"
| "isinstance_bool v = False"

fun isinstance_int :: "json \<Rightarrow> bool" where
  "isinstance_int (JBool b) = True"
| "isinstance_int (JInt i) = True"
| "isinstance_int v = False"

fun isinstance_float :: "json \<Rightarrow> bool" where
  "isinstance_float (JFloat x) = True"
| "isinstance_float v = False"

fun isinstance_dict :: "json \<Rightarrow> bool" where
  "isinstance_dict (JObj kvs) = True"
| "isinstance_dict v = False"

text \<open>\<^verbatim>\<open>x[0]\<close>, \<^verbatim>\<open>x.keys()\<close>, \<^verbatim>\<open>x[header]\<close> with a string key, and iteration over \<^verbatim>\<open>x\<close>.\<close>

fun subscript_zero :: "json \<Rightarrow> error + json" where
  "subscript_zero (JArr []) = Inl IndexError"
| "subscript_zero (JArr (x # xs)) = Inr x"
| "subscript_zero (JStr []) = Inl IndexError"
| "subscript_zero (JStr (c # cs)) = Inr (JStr [c])"
| "subscript_zero (JObj kvs) = Inl KeyError"
| "subscript_zero v = Inl TypeError"

fun keys :: "json \<Rightarrow> error + string list" where
  "keys (JObj kvs) = Inr (map fst kvs)"
| "keys v = Inl AttributeError"

fun subscript :: "json \<Rightarrow> string \<Rightarrow> error + json" where
  "subscript (JObj kvs) h = (case map_of kvs h of None \<Rightarrow> Inl KeyError | Some v \<Rightarrow> Inr v)"
| "subscript v h = Inl TypeError"

fun iterate :: "json \<Rightarrow> error + json list" where
  "iterate (JArr xs) = Inr xs"
| "iterate (JObj kvs) = Inr (map (\<lambda>kv. JStr (fst kv)) kvs)"
| "iterate (JStr s) = Inr (map (\<lambda>c. JStr [c]) s)"
| "iterate v = Inl TypeError"

subsection \<open>Strings\<close>

text \<open>
  \<^verbatim>\<open>str.lower\<close> on code points below 256: the letters A to Z, and the Latin-1 capitals
  U+00C0 to U+00DE without the multiplication sign U+00D7, move up by 32.
\<close>

definition lower_char :: "char \<Rightarrow> char" where
  "lower_char c =
     (let n = (of_char c :: nat)
      in if (65 \<le> n \<and> n \<le> 90) \<or> (192 \<le> n \<and> n \<le> 214) \<or> (216 \<le> n \<and> n \<le> 222)
         then char_of (n + 32) else c)"

definition lower :: "string \<Rightarrow> string" where
  "lower s = map lower_char s"

text \<open>\<^verbatim>\<open>sep.join(xs)\<close>\<close>

fun join :: "string \<Rightarrow> string list \<Rightarrow> string" where
  "join sep [] = []"
| "join sep [x] = x"
| "join sep (x # y # ys) = x @ sep @ join sep (y # ys)"

definition newline :: string where
  "newline = [CHR 0x0A]"

subsection \<open>Type decision\<close>

definition GEOMETRY_HEADERS :: "string list" where
  "GEOMETRY_HEADERS = [''geom'', ''geometry'', ''wkt'']"

definition decide_sql_type :: "string \<Rightarrow> json \<Rightarrow> string" where
  "decide_sql_type header v =
     (if lower header \<in> set GEOMETRY_HEADERS then ''GEOMETRY(GEOMETRY, 3857)''
      else if isinstance_bool v then ''BOOLEAN''
      else if isinstance_int v then ''INTEGER''
      else if isinstance_float v then ''DOUBLE PRECISION''
      else if isinstance_dict v then ''JSONB''
      else ''TEXT'')"

text \<open>
  The precedence list of the specification, section 4.2, written from its words: the six
  rules in order, each on the shape of the JSON value.
\<close>

definition spec_decide_type :: "string \<Rightarrow> json \<Rightarrow> string" where
  "spec_decide_type header v =
     (if lower header = ''geom'' \<or> lower header = ''geometry'' \<or> lower header = ''wkt''
      then ''GEOMETRY(GEOMETRY, 3857)''
      else (case v of
              JBool b \<Rightarrow> ''BOOLEAN''
            | JInt i \<Rightarrow> ''INTEGER''
            | JFloat x \<Rightarrow> ''DOUBLE PRECISION''
            | JObj kvs \<Rightarrow> ''JSONB''
            | JStr s \<Rightarrow> ''TEXT''
            | JNull \<Rightarrow> ''TEXT''
            | JArr xs \<Rightarrow> ''TEXT''))"

subsection \<open>The database driver as a trace of calls\<close>

text \<open>
  The three status lines end in the code point U+2705, so they are kept as constructors that
  carry the table name: \<^verbatim>\<open>Table {table_name} created successfully with spatial support\<close>,
  \<^verbatim>\<open>Table {table_name} created successfully without spatial support\<close> and
  \<^verbatim>\<open>Table {table_name} was filled with data successfully\<close>.
\<close>

datatype message =
    Created_with_spatial_support string
  | Created_without_spatial_support string
  | Filled_with_data string

text \<open>
  \<open>Execute sql None\<close> is \<^verbatim>\<open>cursor.execute(sql)\<close>, \<open>Execute sql (Some vs)\<close> is
  \<^verbatim>\<open>cursor.execute(sql, vs)\<close> with the tuple \<open>vs\<close> of bound parameters.
\<close>

datatype event =
    Connect
  | Cursor
  | Execute string "json list option"
  | Commit
  | Cursor_close
  | Connection_close
  | Print message

text \<open>
  A database says, from the calls completed so far and the call attempted, whether the
  call raises. The trace holds the completed calls only.
\<close>

type_synonym database = "event list \<Rightarrow> event \<Rightarrow> bool"

type_synonym 'a action = "event list \<Rightarrow> (error + 'a) \<times> event list"

definition reliable :: database where
  "reliable tr e = False"

definition db_call :: "database \<Rightarrow> event \<Rightarrow> unit action" where
  "db_call db e tr = (if db tr e then (Inl DatabaseError, tr) else (Inr (), tr @ [e]))"

definition print :: "message \<Rightarrow> unit action" where
  "print m tr = (Inr (), tr @ [Print m])"

definition raise :: "error \<Rightarrow> unit action" where
  "raise e tr = (Inl e, tr)"

text \<open>Sequencing of statements: an exception in the first skips the rest.\<close>

definition seq :: "unit action \<Rightarrow> unit action \<Rightarrow> unit action" where
  "seq m n tr = (case m tr of (Inl e, tr') \<Rightarrow> (Inl e, tr') | (Inr u, tr') \<Rightarrow> n tr')"

subsection \<open>create\_table\_from\_json\<close>

text \<open>The loop of lines 52 to 55, appending to \<^verbatim>\<open>columns_with_types\<close>.\<close>

fun columns_loop :: "json \<Rightarrow> string list \<Rightarrow> string list \<Rightarrow> error + string list" where
  "columns_loop first_json_entry [] columns_with_types = Inr columns_with_types"
| "columns_loop first_json_entry (header # rest) columns_with_types =
     (case subscript first_json_entry header of
        Inl e \<Rightarrow> Inl e
      | Inr v \<Rightarrow>
          columns_loop first_json_entry rest
            (columns_with_types @ [header @ '' '' @ decide_sql_type header v]))"

definition create_sql :: "string \<Rightarrow> string list \<Rightarrow> string" where
  "create_sql table_name columns_with_types =
     newline @ ''    CREATE TABLE IF NOT EXISTS '' @ table_name @ '' ('' @
     newline @ ''        '' @ join '', '' columns_with_types @
     newline @ ''    );'' @
     newline @ ''    ''"

definition drop_sql :: "string \<Rightarrow> string" where
  "drop_sql table_name = ''DROP TABLE IF EXISTS '' @ table_name @ '';''"

definition index_sql :: "string \<Rightarrow> string \<Rightarrow> string" where
  "index_sql table_name spatial_column =
     newline @ ''            CREATE INDEX IF NOT EXISTS idx_'' @ table_name @ ''_'' @
       spatial_column @ '' '' @
     newline @ ''            ON '' @ table_name @ '' USING GIST('' @ spatial_column @ '');'' @
     newline @ ''        ''"

definition is_geometry :: "string \<Rightarrow> bool" where
  "is_geometry header = (lower header \<in> set GEOMETRY_HEADERS)"

text \<open>
  Lines 73 to 89: the commit and the two closes stand inside the branch taken when a
  geometry header exists.
\<close>

definition spatial_block :: "database \<Rightarrow> string \<Rightarrow> string list \<Rightarrow> unit action" where
  "spatial_block db table_name ks =
     (if list_ex is_geometry ks then
        (case find is_geometry ks of
           None \<Rightarrow> raise StopIteration
         | Some spatial_column \<Rightarrow>
             seq (db_call db (Execute (index_sql table_name spatial_column) None))
            (seq (db_call db Commit)
            (seq (db_call db Cursor_close)
            (seq (db_call db Connection_close)
                 (print (Created_with_spatial_support table_name))))))
      else print (Created_without_spatial_support table_name))"

definition create_table_from_json :: "database \<Rightarrow> json \<Rightarrow> string \<Rightarrow> unit action" where
  "create_table_from_json db json_data table_name tr =
     (case subscript_zero json_data of
        Inl e \<Rightarrow> (Inl e, tr)
      | Inr first_json_entry \<Rightarrow>
     (case keys first_json_entry of
        Inl e \<Rightarrow> (Inl e, tr)
      | Inr headers \<Rightarrow>
     (case columns_loop first_json_entry headers [''id BIGSERIAL PRIMARY KEY''] of
        Inl e \<Rightarrow> (Inl e, tr)
      | Inr columns_with_types \<Rightarrow>
          seq (db_call db Connect)
         (seq (db_call db Cursor)
         (seq (db_call db (Execute (drop_sql table_name) None))
         (seq (db_call db (Execute (create_sql table_name columns_with_types) None))
              (spatial_block db table_name headers)))) tr)))"

subsection \<open>insert\_data\_from\_json\<close>

text \<open>The loop of lines 105 to 110, appending to \<^verbatim>\<open>placeholders\<close> and \<^verbatim>\<open>headers\<close>.\<close>

fun placeholders_loop ::
  "string list \<Rightarrow> string list \<times> string list \<Rightarrow> string list \<times> string list" where
  "placeholders_loop [] (placeholders, headers) = (placeholders, headers)"
| "placeholders_loop (header # rest) (placeholders, headers) =
     placeholders_loop rest
       (if lower header \<in> set GEOMETRY_HEADERS
        then placeholders @ [''ST_Transform(ST_GeomFromText(%s, 3857), 3857)'']
        else placeholders @ [''%s''],
        headers @ [header])"

definition insert_sql :: "string \<Rightarrow> string list \<Rightarrow> string list \<Rightarrow> string" where
  "insert_sql table_name headers placeholders =
     newline @ ''    INSERT INTO '' @ table_name @ '' ('' @ join '', '' headers @ '')'' @
     newline @ ''    VALUES ('' @ join '', '' placeholders @ '')'' @
     newline @ ''    ''"

text \<open>\<^verbatim>\<open>tuple(entry[header] for header in headers)\<close>\<close>

fun build_tuple :: "json \<Rightarrow> string list \<Rightarrow> error + json list" where
  "build_tuple entry [] = Inr []"
| "build_tuple entry (header # rest) =
     (case subscript entry header of
        Inl e \<Rightarrow> Inl e
      | Inr v \<Rightarrow> (case build_tuple entry rest of Inl e \<Rightarrow> Inl e | Inr vs \<Rightarrow> Inr (v # vs)))"

text \<open>The loop of lines 123 to 125.\<close>

fun insert_loop :: "database \<Rightarrow> string \<Rightarrow> string list \<Rightarrow> json list \<Rightarrow> unit action" where
  "insert_loop db sql headers [] tr = (Inr (), tr)"
| "insert_loop db sql headers (entry # rest) tr =
     (case build_tuple entry headers of
        Inl e \<Rightarrow> (Inl e, tr)
      | Inr data \<Rightarrow>
          seq (db_call db (Execute sql (Some data))) (insert_loop db sql headers rest) tr)"

definition insert_data_from_json :: "database \<Rightarrow> json \<Rightarrow> string \<Rightarrow> unit action" where
  "insert_data_from_json db json_data table_name tr =
     (case subscript_zero json_data of
        Inl e \<Rightarrow> (Inl e, tr)
      | Inr first_json_entry \<Rightarrow>
     (case keys first_json_entry of
        Inl e \<Rightarrow> (Inl e, tr)
      | Inr ks \<Rightarrow>
     (case placeholders_loop ks ([], []) of
        (placeholders, headers) \<Rightarrow>
     (case iterate json_data of
        Inl e \<Rightarrow>
          seq (db_call db Connect) (seq (db_call db Cursor) (raise e)) tr
      | Inr entries \<Rightarrow>
          seq (db_call db Connect)
         (seq (db_call db Cursor)
         (seq (insert_loop db (insert_sql table_name headers placeholders) headers entries)
         (seq (db_call db Commit)
         (seq (db_call db Cursor_close)
         (seq (db_call db Connection_close)
              (print (Filled_with_data table_name))))))) tr))))"

text \<open>
  What a transactional database keeps of a run: the statements executed before the last
  commit. Statements after it, or a run without a commit, leave nothing behind.
\<close>

fun committed :: "event list \<Rightarrow> event list \<Rightarrow> event list" where
  "committed pending [] = []"
| "committed pending (Commit # tr) = pending @ committed [] tr"
| "committed pending (Execute sql vs # tr) = committed (pending @ [Execute sql vs]) tr"
| "committed pending (e # tr) = committed pending tr"

subsection \<open>Closed forms used to state the properties\<close>

text \<open>The column text and the placeholder that the two loops append for one header.\<close>

definition column_of :: "(string \<times> json) list \<Rightarrow> string \<Rightarrow> string" where
  "column_of kvs header = header @ '' '' @ decide_sql_type header (the (map_of kvs header))"

definition placeholder_of :: "string \<Rightarrow> string" where
  "placeholder_of header =
     (if is_geometry header then ''ST_Transform(ST_GeomFromText(%s, 3857), 3857)'' else ''%s'')"

text \<open>The values of a record under the given keys, in the order of the keys.\<close>

fun values_for :: "json \<Rightarrow> string list \<Rightarrow> json list" where
  "values_for (JObj kvs) ks = List.map_filter (map_of kvs) ks"
| "values_for v ks = []"

fun has_keys :: "string list \<Rightarrow> json \<Rightarrow> bool" where
  "has_keys ks (JObj kvs) = list_all (\<lambda>k. k \<in> fst ` set kvs) ks"
| "has_keys ks v = (ks = [])"

fun is_execute :: "event \<Rightarrow> bool" where
  "is_execute (Execute sql vs) = True"
| "is_execute e = False"

text \<open>The calls that end a load, and the full trace of a table creation with a geometry field.\<close>

definition closing :: "string \<Rightarrow> event list" where
  "closing t = [Commit, Cursor_close, Connection_close, Print (Filled_with_data t)]"


section \<open>Properties\<close>

lemma lower_char_idem: "lower_char (lower_char c) = lower_char c"
  unfolding lower_char_def Let_def by auto

lemma lower_idem: "lower (lower s) = lower s"
  by (simp add: lower_def lower_char_idem)

lemma lower_examples:
  "lower ''a'' = ''a''" "lower ''b'' = ''b''" "lower ''name'' = ''name''" "lower ''n'' = ''n''"
  "lower ''geom'' = ''geom''" "lower ''WKT'' = ''wkt''" "lower ''wkt'' = ''wkt''"
  "lower ''Geom'' = ''geom''" "lower ''GEOMETRY'' = ''geometry''"
  by (simp_all add: lower_def lower_char_def char_of_def bit_Suc_0_iff)

text \<open>
  C3. For every field name and JSON value, \<open>decide_sql_type\<close> follows the precedence list of
  the specification with the first match winning: a geometry alias gives the geometry type
  whatever the value is, then a boolean gives BOOLEAN, an integer INTEGER, a float DOUBLE
  PRECISION, a nested object JSONB, and every other shape (string, null, array) TEXT. In
  particular a boolean is never classified INTEGER.
\<close>

theorem decide_sql_type_precedence:
  "decide_sql_type header v = spec_decide_type header v \<and>
   decide_sql_type header (JBool b) \<noteq> ''INTEGER''"
  by (cases v) (simp_all add: decide_sql_type_def spec_decide_type_def GEOMETRY_HEADERS_def)

text \<open>
  C9. Geometry aliases are matched without regard to case: a field name whose lower-casing is
  geom, geometry or wkt gets the geometry type for every value, and the decision for a name
  equals the decision for its lower-casing.
\<close>

theorem geometry_alias_case_insensitive:
  "(lower h \<in> {''geom'', ''geometry'', ''wkt''} \<longrightarrow> decide_sql_type h v = ''GEOMETRY(GEOMETRY, 3857)'')
  \<and> decide_sql_type h v = decide_sql_type (lower h) v"
  by (simp add: decide_sql_type_def GEOMETRY_HEADERS_def lower_idem)

theorem geometry_alias_case_insensitive_witness:
  "lower ''Geom'' \<in> {''geom'', ''geometry'', ''wkt''} \<and> lower ''GEOMETRY'' \<in> {''geom'', ''geometry'', ''wkt''}
   \<and> lower ''wkt'' \<in> {''geom'', ''geometry'', ''wkt''}
   \<and> decide_sql_type ''Geom'' (JInt 1) = ''GEOMETRY(GEOMETRY, 3857)''
   \<and> decide_sql_type ''GEOMETRY'' (JBool True) = ''GEOMETRY(GEOMETRY, 3857)''
   \<and> decide_sql_type ''wkt'' (JStr ''POINT(1 2)'') = ''GEOMETRY(GEOMETRY, 3857)''"
  using geometry_alias_case_insensitive [of "''Geom''" "JInt 1"]
    geometry_alias_case_insensitive [of "''GEOMETRY''" "JBool True"]
    geometry_alias_case_insensitive [of "''wkt''" "JStr ''POINT(1 2)''"]
  by (simp add: lower_def lower_char_def char_of_def bit_Suc_0_iff)

text \<open>
  C4. On the empty dataset \<open>[]\<close> the table creation fails with the IndexError of the access
  to the first record, whatever the database and the table name are, and its trace is empty:
  no connection is opened and no drop, create or index statement runs.
\<close>

theorem create_empty_dataset_fails_first:
  "create_table_from_json db (JArr []) table_name [] = (Inl IndexError, [])"
  by (simp add: create_table_from_json_def)

lemma columns_loop_map:
  "set hs \<subseteq> fst ` set kvs \<Longrightarrow>
   columns_loop (JObj kvs) hs acc = Inr (acc @ map (column_of kvs) hs)"
proof (induction hs arbitrary: acc)
  case Nil
  then show ?case by simp
next
  case (Cons h hs)
  from Cons.prems have "h \<in> fst ` set kvs" by simp
  then obtain v where v: "map_of kvs h = Some v"
    by (metis map_of_eq_None_iff not_Some_eq)
  from Cons.prems have "set hs \<subseteq> fst ` set kvs" by simp
  then show ?case using v Cons.IH by (simp add: column_of_def)
qed

lemma placeholders_loop_map:
  "placeholders_loop ks (ps, hs) = (ps @ map placeholder_of ks, hs @ ks)"
  by (induction ks arbitrary: ps hs) (simp_all add: placeholder_of_def is_geometry_def)

lemma db_call_reliable: "db_call reliable e tr = (Inr (), tr @ [e])"
  by (simp add: db_call_def reliable_def)

lemma seq_Inr: "m tr = (Inr u, tr') \<Longrightarrow> seq m n tr = n tr'"
  by (simp add: seq_def)

lemma seq_Inl: "m tr = (Inl e, tr') \<Longrightarrow> seq m n tr = (Inl e, tr')"
  by (simp add: seq_def)

lemma seq_db_call_reliable: "seq (db_call reliable e) n tr = n (tr @ [e])"
  by (simp add: seq_def db_call_reliable)

text \<open>
  C7. Spatial scenario: on the dataset \<open>[{"name": "X", "wkt": "POINT(1 2)"}]\<close> and a database
  that accepts every call, the table creation drops the table, executes the create statement
  with exactly the columns \<open>id BIGSERIAL PRIMARY KEY, name TEXT, wkt GEOMETRY(GEOMETRY, 3857)\<close>,
  executes the GIST index statement on \<open>wkt\<close>, commits, closes, and prints the status line
  with spatial support.
\<close>

theorem spatial_scenario:
  "create_table_from_json reliable
     (JArr [JObj [(''name'', JStr ''X''), (''wkt'', JStr ''POINT(1 2)'')]]) table_name [] =
   (Inr (),
    [Connect, Cursor,
     Execute (drop_sql table_name) None,
     Execute (create_sql table_name
       [''id BIGSERIAL PRIMARY KEY'', ''name TEXT'', ''wkt GEOMETRY(GEOMETRY, 3857)'']) None,
     Execute (index_sql table_name ''wkt'') None,
     Commit, Cursor_close, Connection_close,
     Print (Created_with_spatial_support table_name)]) \<and>
   create_sql table_name
       [''id BIGSERIAL PRIMARY KEY'', ''name TEXT'', ''wkt GEOMETRY(GEOMETRY, 3857)''] =
     newline @ ''    CREATE TABLE IF NOT EXISTS '' @ table_name @ '' ('' @
     newline @ ''        id BIGSERIAL PRIMARY KEY, name TEXT, wkt GEOMETRY(GEOMETRY, 3857)'' @
     newline @ ''    );'' @
     newline @ ''    '' \<and>
   index_sql table_name ''wkt'' =
     newline @ ''            CREATE INDEX IF NOT EXISTS idx_'' @ table_name @ ''_wkt '' @
     newline @ ''            ON '' @ table_name @ '' USING GIST(wkt);'' @
     newline @ ''        ''"
  by (simp add: create_table_from_json_def spatial_block_def seq_db_call_reliable print_def
      decide_sql_type_def is_geometry_def GEOMETRY_HEADERS_def create_sql_def index_sql_def
      lower_def lower_char_def char_of_def bit_Suc_0_iff)

lemma build_tuple_values:
  "build_tuple entry hs = Inr vs \<Longrightarrow> vs = values_for entry hs \<and> has_keys hs entry"
proof (induction hs arbitrary: vs)
  case Nil
  then show ?case by (cases entry) (simp_all add: List.map_filter_simps)
next
  case (Cons h hs)
  show ?case
  proof (cases entry)
    case (JObj kvs)
    with Cons.prems obtain v ws where v: "map_of kvs h = Some v"
      and ws: "build_tuple entry hs = Inr ws" and vs: "vs = v # ws"
      by (auto split: option.splits sum.splits)
    from Cons.IH [OF ws] have "ws = values_for entry hs" "has_keys hs entry" by simp_all
    moreover from v have "h \<in> fst ` set kvs"
      by (metis map_of_eq_None_iff option.distinct(1))
    ultimately show ?thesis using JObj v vs by (simp add: List.map_filter_simps)
  qed (use Cons.prems in simp_all)
qed

lemma has_keys_build_tuple:
  "has_keys hs entry \<Longrightarrow> build_tuple entry hs = Inr (values_for entry hs)"
proof (induction hs)
  case Nil
  then show ?case by (cases entry) (simp_all add: List.map_filter_simps)
next
  case (Cons h hs)
  show ?case
  proof (cases entry)
    case (JObj kvs)
    with Cons.prems have h: "h \<in> fst ` set kvs" and "has_keys hs entry" by simp_all
    then obtain v where v: "map_of kvs h = Some v"
      by (metis map_of_eq_None_iff not_Some_eq)
    from Cons.IH [OF \<open>has_keys hs entry\<close>] show ?thesis
      using JObj v by (simp add: List.map_filter_simps)
  qed (use Cons.prems in simp_all)
qed

lemma missing_key_build_tuple:
  "\<not> has_keys hs entry \<Longrightarrow> \<exists>e. build_tuple entry hs = Inl e"
  by (cases "build_tuple entry hs") (auto dest: build_tuple_values)

lemma insert_loop_trace:
  "insert_loop db sql hs entries tr = (r, tr') \<Longrightarrow>
   \<exists>n \<le> length entries.
     tr' = tr @ map (\<lambda>entry. Execute sql (Some (values_for entry hs))) (take n entries) \<and>
     list_all (has_keys hs) (take n entries) \<and>
     (r = Inr () \<longrightarrow> n = length entries)"
proof (induction entries arbitrary: tr)
  case Nil
  then show ?case by simp
next
  case (Cons entry rest)
  show ?case
  proof (cases "build_tuple entry hs")
    case (Inl e)
    with Cons.prems have "tr' = tr" "r = Inl e" by simp_all
    then show ?thesis by (intro exI [of _ 0]) simp
  next
    case (Inr data)
    then have data: "data = values_for entry hs" and hk: "has_keys hs entry"
      by (simp_all add: build_tuple_values)
    show ?thesis
    proof (cases "db tr (Execute sql (Some data))")
      case True
      with Inr Cons.prems have "tr' = tr" "r = Inl DatabaseError"
        by (simp_all add: seq_def db_call_def)
      then show ?thesis by (intro exI [of _ 0]) simp
    next
      case False
      with Inr Cons.prems
      have "insert_loop db sql hs rest (tr @ [Execute sql (Some data)]) = (r, tr')"
        by (simp add: seq_def db_call_def)
      from Cons.IH [OF this] obtain n where n: "n \<le> length rest"
        "tr' = (tr @ [Execute sql (Some data)]) @
           map (\<lambda>entry. Execute sql (Some (values_for entry hs))) (take n rest)"
        "list_all (has_keys hs) (take n rest)" "r = Inr () \<longrightarrow> n = length rest"
        by blast
      then show ?thesis using data hk by (intro exI [of _ "Suc n"]) simp
    qed
  qed
qed

lemma insert_loop_reliable:
  "list_all (has_keys hs) entries \<Longrightarrow>
   insert_loop reliable sql hs entries tr =
     (Inr (), tr @ map (\<lambda>entry. Execute sql (Some (values_for entry hs))) entries)"
  by (induction entries arbitrary: tr)
     (simp_all add: has_keys_build_tuple seq_db_call_reliable)

lemma finish_shape:
  "seq (db_call db Commit) (seq (db_call db Cursor_close) (seq (db_call db Connection_close)
     (print (Filled_with_data t)))) tr = (r, tr') \<Longrightarrow>
   \<exists>suf. tr' = tr @ suf \<and> prefix suf (closing t) \<and> (r = Inr () \<longleftrightarrow> suf = closing t)"
  by (auto simp: seq_def db_call_def print_def closing_def split: if_splits)

lemma has_keys_first: "has_keys (map fst kvs) (JObj kvs)"
  by (simp add: list_all_iff)

lemma insert_run_unfold:
  "insert_data_from_json db (JArr (JObj kvs # rest)) t tr =
     seq (db_call db Connect)
    (seq (db_call db Cursor)
    (seq (insert_loop db (insert_sql t (map fst kvs) (map placeholder_of (map fst kvs)))
            (map fst kvs) (JObj kvs # rest))
    (seq (db_call db Commit)
    (seq (db_call db Cursor_close)
    (seq (db_call db Connection_close)
         (print (Filled_with_data t))))))) tr"
  by (simp add: insert_data_from_json_def placeholders_loop_map)

lemma insert_run_shape:
  assumes run: "insert_data_from_json db (JArr (JObj kvs # rest)) t [] = (r, tr)"
  shows "\<exists>pre n suf.
     tr = pre @ map (\<lambda>entry. Execute (insert_sql t (map fst kvs) (map placeholder_of (map fst kvs)))
                        (Some (values_for entry (map fst kvs)))) (take n (JObj kvs # rest)) @ suf \<and>
     prefix pre [Connect, Cursor] \<and> prefix suf (closing t) \<and>
     n \<le> length (JObj kvs # rest) \<and>
     list_all (has_keys (map fst kvs)) (take n (JObj kvs # rest)) \<and>
     (suf \<noteq> [] \<longrightarrow> n = length (JObj kvs # rest)) \<and>
     (n \<noteq> 0 \<or> suf \<noteq> [] \<longrightarrow> pre = [Connect, Cursor]) \<and>
     (r = Inr () \<longleftrightarrow> suf = closing t)"
proof -
  let ?hs = "map fst kvs"
  let ?sql = "insert_sql t ?hs (map placeholder_of ?hs)"
  let ?E = "\<lambda>entry. Execute ?sql (Some (values_for entry ?hs))"
  let ?entries = "JObj kvs # rest"
  have closing_ne: "closing t \<noteq> []" by (simp add: closing_def)
  show ?thesis
  proof (cases "db [] Connect")
    case True
    with run have "tr = []" "r = Inl DatabaseError"
      by (simp_all add: insert_run_unfold seq_def db_call_def)
    then show ?thesis using closing_ne
      by (intro exI [of _ "[]"] exI [of _ 0]) auto
  next
    case c1: False
    show ?thesis
    proof (cases "db [Connect] Cursor")
      case True
      with c1 run have "tr = [Connect]" "r = Inl DatabaseError"
        by (simp_all add: insert_run_unfold seq_def db_call_def)
      then show ?thesis using closing_ne
        by (intro exI [of _ "[Connect]"] exI [of _ 0] exI [of _ "[]"]) auto
    next
      case c2: False
      obtain r1 tr1 where loop: "insert_loop db ?sql ?hs ?entries [Connect, Cursor] = (r1, tr1)"
        by (cases "insert_loop db ?sql ?hs ?entries [Connect, Cursor]") blast
      from insert_loop_trace [OF loop] obtain n where n: "n \<le> length ?entries"
        "tr1 = [Connect, Cursor] @ map ?E (take n ?entries)"
        "list_all (has_keys ?hs) (take n ?entries)" "r1 = Inr () \<longrightarrow> n = length ?entries"
        by blast
      show ?thesis
      proof (cases r1)
        case (Inl e)
        with c1 c2 run loop have "tr = tr1" "r = Inl e"
          by (simp_all add: insert_run_unfold seq_def db_call_def)
        then show ?thesis using n closing_ne
          by (intro exI [of _ "[Connect, Cursor]"] exI [of _ n] exI [of _ "[]"]) auto
      next
        case (Inr u)
        with c1 c2 run loop have
          "seq (db_call db Commit) (seq (db_call db Cursor_close) (seq (db_call db Connection_close)
             (print (Filled_with_data t)))) tr1 = (r, tr)"
          by (simp add: insert_run_unfold seq_def db_call_def)
        from finish_shape [OF this] obtain suf where
          suf: "tr = tr1 @ suf" "prefix suf (closing t)" "r = Inr () \<longleftrightarrow> suf = closing t"
          by blast
        from Inr n have "n = length ?entries" by simp
        then show ?thesis using n suf
          by (intro exI [of _ "[Connect, Cursor]"] exI [of _ n] exI [of _ suf]) auto
      qed
    qed
  qed
qed


lemma create_run_unfold:
  "create_table_from_json db (JArr (JObj kvs # rest)) t tr =
     seq (db_call db Connect)
    (seq (db_call db Cursor)
    (seq (db_call db (Execute (drop_sql t) None))
    (seq (db_call db (Execute (create_sql t
            (''id BIGSERIAL PRIMARY KEY'' # map (column_of kvs) (map fst kvs))) None))
         (spatial_block db t (map fst kvs))))) tr"
  by (simp add: create_table_from_json_def columns_loop_map)


lemma spatial_block_plain:
  "\<not> list_ex is_geometry ks \<Longrightarrow>
   spatial_block db t ks = print (Created_without_spatial_support t)"
  by (simp add: spatial_block_def)



lemma create_plain_trace:
  "\<not> list_ex is_geometry (map fst kvs) \<Longrightarrow>
   prefix (snd (create_table_from_json db (JArr (JObj kvs # rest)) t []))
     [Connect, Cursor, Execute (drop_sql t) None,
      Execute (create_sql t (''id BIGSERIAL PRIMARY KEY'' # map (column_of kvs) (map fst kvs))) None,
      Print (Created_without_spatial_support t)]"
  by (simp add: create_run_unfold spatial_block_plain seq_def db_call_def print_def)

text \<open>
  C2 says that a table creation whose first record has no geometry alias still commits and
  closes the cursor and the connection before it reports success. The run below, on the
  dataset \<open>[{"name": "X"}]\<close> with a database that accepts every call, ends after the create
  statement with the status line: no commit, no close. By \<open>create_plain_trace\<close> this holds for
  every database and every first record without a geometry alias.
\<close>

theorem create_without_geometry_skips_commit:
  "create_table_from_json reliable (JArr [JObj [(''name'', JStr ''X'')]]) table_name [] =
   (Inr (),
    [Connect, Cursor,
     Execute (drop_sql table_name) None,
     Execute (create_sql table_name [''id BIGSERIAL PRIMARY KEY'', ''name TEXT'']) None,
     Print (Created_without_spatial_support table_name)])"
  by (simp add: create_table_from_json_def spatial_block_def seq_db_call_reliable print_def
      decide_sql_type_def is_geometry_def GEOMETRY_HEADERS_def
      lower_def lower_char_def char_of_def bit_Suc_0_iff)

lemma columns_loop_first_record: "columns_loop (JObj kvs) (map fst kvs) [''id BIGSERIAL PRIMARY KEY''] =
     Inr (''id BIGSERIAL PRIMARY KEY'' # map (column_of kvs) (map fst kvs))"
  by (simp add: columns_loop_map)

lemma create_statement_executed: "Execute (create_sql t (''id BIGSERIAL PRIMARY KEY'' # map (column_of kvs) (map fst kvs))) None
   \<in> set (snd (create_table_from_json reliable (JArr (JObj kvs # rest)) t []))"
  by (cases "list_ex is_geometry (map fst kvs)")
     (simp_all add: create_run_unfold spatial_block_def seq_db_call_reliable print_def raise_def
       split: option.splits)

lemma insert_reliable_start:
  "insert_data_from_json reliable (JArr (JObj kvs # rest)) t [] =
     seq (insert_loop reliable (insert_sql t (map fst kvs) (map placeholder_of (map fst kvs)))
            (map fst kvs) rest)
    (seq (db_call reliable Commit)
    (seq (db_call reliable Cursor_close)
    (seq (db_call reliable Connection_close)
         (print (Filled_with_data t)))))
     [Connect, Cursor,
      Execute (insert_sql t (map fst kvs) (map placeholder_of (map fst kvs)))
        (Some (values_for (JObj kvs) (map fst kvs)))]"
proof -
  have first: "build_tuple (JObj kvs) (map fst kvs) = Inr (values_for (JObj kvs) (map fst kvs))"
    by (rule has_keys_build_tuple [OF has_keys_first])
  have loop: "insert_loop reliable sql (map fst kvs) (JObj kvs # rest) tr =
      insert_loop reliable sql (map fst kvs) rest
        (tr @ [Execute sql (Some (values_for (JObj kvs) (map fst kvs)))])" for sql tr
    by (simp only: insert_loop.simps first sum.case seq_db_call_reliable)
  have "seq (insert_loop reliable sql (map fst kvs) (JObj kvs # rest)) n tr =
      seq (insert_loop reliable sql (map fst kvs) rest) n
        (tr @ [Execute sql (Some (values_for (JObj kvs) (map fst kvs)))])" for sql n tr
    by (simp only: seq_def loop)
  then show ?thesis
    by (simp only: insert_run_unfold seq_db_call_reliable append.simps)
qed

lemma insert_reliable:
  assumes "list_all (has_keys (map fst kvs)) rest"
  shows "insert_data_from_json reliable (JArr (JObj kvs # rest)) t [] =
     (Inr (),
      [Connect, Cursor] @
      map (\<lambda>entry. Execute (insert_sql t (map fst kvs) (map placeholder_of (map fst kvs)))
                     (Some (values_for entry (map fst kvs)))) (JObj kvs # rest) @
      [Commit, Cursor_close, Connection_close, Print (Filled_with_data t)])"
  by (simp only: insert_reliable_start seq_Inr [OF insert_loop_reliable [OF assms]]
        seq_db_call_reliable print_def)
     simp

lemma first_insert_executed: "Execute (insert_sql t (map fst kvs) (map placeholder_of (map fst kvs)))
      (Some (values_for (JObj kvs) (map fst kvs)))
   \<in> set (snd (insert_data_from_json reliable (JArr (JObj kvs # rest)) t []))"
proof -
  let ?E = "Execute (insert_sql t (map fst kvs) (map placeholder_of (map fst kvs)))
      (Some (values_for (JObj kvs) (map fst kvs)))"
  let ?loop = "insert_loop reliable (insert_sql t (map fst kvs) (map placeholder_of (map fst kvs)))
      (map fst kvs) rest [Connect, Cursor, ?E]"
  obtain r1 tr1 where loop: "?loop = (r1, tr1)"
    by (cases ?loop) blast
  from insert_loop_trace [OF loop] have E: "?E \<in> set tr1" by auto
  show ?thesis
  proof (cases r1)
    case (Inl e)
    with loop have "insert_data_from_json reliable (JArr (JObj kvs # rest)) t [] = (Inl e, tr1)"
      by (simp only: insert_reliable_start seq_Inl)
    with E show ?thesis by simp
  next
    case (Inr u)
    with loop have "insert_data_from_json reliable (JArr (JObj kvs # rest)) t [] =
        (Inr (), tr1 @ closing t)"
      by (simp only: insert_reliable_start seq_Inr seq_db_call_reliable print_def closing_def)
         simp
    with E show ?thesis by simp
  qed
qed

lemma connecting_cases:
  "prefix pre [Connect, Cursor] \<Longrightarrow> pre = [] \<or> pre = [Connect] \<or> pre = [Connect, Cursor]"
  by (auto simp: prefix_Cons)

lemma closing_cases:
  "prefix suf (closing t) \<Longrightarrow>
   suf = [] \<or> suf = [Commit] \<or> suf = [Commit, Cursor_close] \<or>
   suf = [Commit, Cursor_close, Connection_close] \<or> suf = closing t"
  by (auto simp: prefix_Cons closing_def)

lemma committed_without_commit: "Commit \<notin> set tr \<Longrightarrow> committed pending tr = []"
  by (induction pending tr rule: committed.induct) simp_all

lemma build_tuple_nth:
  "build_tuple entry hs = Inr vs \<Longrightarrow>
   length vs = length hs \<and> (\<forall>i < length hs. subscript entry (hs ! i) = Inr (vs ! i))"
proof (induction hs arbitrary: vs)
  case Nil
  then show ?case by simp
next
  case (Cons h hs)
  from Cons.prems obtain v ws where v: "subscript entry h = Inr v"
    and ws: "build_tuple entry hs = Inr ws" and vs: "vs = v # ws"
    by (auto split: sum.splits)
  from Cons.IH [OF ws] have len: "length ws = length hs"
    and nth: "\<And>i. i < length hs \<Longrightarrow> subscript entry (hs ! i) = Inr (ws ! i)"
    by simp_all
  have "subscript entry ((h # hs) ! i) = Inr (vs ! i)" if "i < length (h # hs)" for i
    using that v vs nth by (cases i) simp_all
  with len vs show ?case by simp
qed

lemma placeholders_plain:
  "\<not> list_ex is_geometry ks \<Longrightarrow> map placeholder_of ks = map (\<lambda>h. ''%s'') ks"
  by (simp add: placeholder_of_def list_ex_iff)

text \<open>
  C1. Column order: for a dataset whose first record has the keys \<open>map fst kvs\<close>, the column
  list composed by the table creation is the surrogate key column followed by one column per
  key, in key order, and the header list composed by the load is exactly the keys in that
  order, without a surrogate key. The create statement and the insert statement that a
  database accepting every call executes are composed from these two lists.
\<close>

theorem column_order_invariant:
  "columns_loop (JObj kvs) (map fst kvs) [''id BIGSERIAL PRIMARY KEY''] =
     Inr (''id BIGSERIAL PRIMARY KEY'' #
          map (\<lambda>k. k @ '' '' @ decide_sql_type k (the (map_of kvs k))) (map fst kvs)) \<and>
   snd (placeholders_loop (map fst kvs) ([], [])) = map fst kvs \<and>
   Execute (create_sql t (''id BIGSERIAL PRIMARY KEY'' #
              map (\<lambda>k. k @ '' '' @ decide_sql_type k (the (map_of kvs k))) (map fst kvs))) None
     \<in> set (snd (create_table_from_json reliable (JArr (JObj kvs # rest)) t [])) \<and>
   Execute (insert_sql t (map fst kvs) (fst (placeholders_loop (map fst kvs) ([], []))))
       (Some (values_for (JObj kvs) (map fst kvs)))
     \<in> set (snd (insert_data_from_json reliable (JArr (JObj kvs # rest)) t []))"
proof -
  have col: "column_of kvs = (\<lambda>k. k @ '' '' @ decide_sql_type k (the (map_of kvs k)))"
    by (rule ext) (simp add: column_of_def)
  show ?thesis
    using columns_loop_first_record [of kvs] create_statement_executed [of t kvs rest]
      first_insert_executed [of t kvs rest]
    by (simp only: col placeholders_loop_map fst_conv snd_conv append_Nil simp_thms)
qed

text \<open>
  C5. The insert statement text depends on the table name and the key names of the first
  record only: in two loads into the same table, of datasets whose first records have the
  same keys, with any databases, every executed statement has one and the same text,
  composed from the table name and those keys. Each execution passes the values of one
  record of the dataset as the bound parameters, next to the statement and never inside it.
\<close>

theorem insert_statement_independent_of_values:
  assumes "map fst kvs = map fst kvs'"
    and "Execute s p \<in> set (snd (insert_data_from_json db (JArr (JObj kvs # rest)) t []))"
    and "Execute s' p' \<in> set (snd (insert_data_from_json db' (JArr (JObj kvs' # rest')) t []))"
  shows "s = insert_sql t (map fst kvs) (map placeholder_of (map fst kvs)) \<and> s' = s \<and>
    (\<exists>entry \<in> set (JObj kvs # rest).
       p = Some (values_for entry (map fst kvs)) \<and>
       build_tuple entry (map fst kvs) = Inr (values_for entry (map fst kvs)))"
proof -
  have one: "s = insert_sql t (map fst kvs) (map placeholder_of (map fst kvs)) \<and>
      (\<exists>entry \<in> set (JObj kvs # rest).
         p = Some (values_for entry (map fst kvs)) \<and>
         build_tuple entry (map fst kvs) = Inr (values_for entry (map fst kvs)))"
    if ex: "Execute s p \<in> set (snd (insert_data_from_json db (JArr (JObj kvs # rest)) t []))"
    for s p db kvs rest
  proof -
    let ?E = "\<lambda>entry. Execute (insert_sql t (map fst kvs) (map placeholder_of (map fst kvs)))
                        (Some (values_for entry (map fst kvs)))"
    obtain r tr where run: "insert_data_from_json db (JArr (JObj kvs # rest)) t [] = (r, tr)"
      by (cases "insert_data_from_json db (JArr (JObj kvs # rest)) t []") blast
    from insert_run_shape [OF run] obtain pre n suf where
      tr: "tr = pre @ map ?E (take n (JObj kvs # rest)) @ suf"
      and pre: "prefix pre [Connect, Cursor]" and suf: "prefix suf (closing t)"
      and hk: "list_all (has_keys (map fst kvs)) (take n (JObj kvs # rest))"
      by blast
    from connecting_cases [OF pre] have "Execute s p \<notin> set pre" by auto
    moreover from closing_cases [OF suf] have "Execute s p \<notin> set suf"
      by (auto simp: closing_def)
    ultimately have "Execute s p \<in> set (map ?E (take n (JObj kvs # rest)))"
      using ex run tr by simp
    then obtain entry where entry: "entry \<in> set (take n (JObj kvs # rest))"
      and eq: "Execute s p = ?E entry"
      by auto
    from entry hk have "has_keys (map fst kvs) entry" by (simp add: list_all_iff)
    then have "build_tuple entry (map fst kvs) = Inr (values_for entry (map fst kvs))"
      by (rule has_keys_build_tuple)
    moreover from entry have "entry \<in> set (JObj kvs # rest)" by (rule in_set_takeD)
    ultimately show ?thesis using eq by blast
  qed
  from one [OF assms(2)] one [OF assms(3)] assms(1) show ?thesis by simp
qed

theorem insert_statement_independent_of_values_witness:
  "map fst [(''name'', JStr ''O'Brien; DROP TABLE x;'')] = map fst [(''name'', JStr ''Alice'')] \<and>
   Execute (insert_sql ''x'' [''name''] [''%s'']) (Some [JStr ''O'Brien; DROP TABLE x;''])
     \<in> set (snd (insert_data_from_json reliable
          (JArr [JObj [(''name'', JStr ''O'Brien; DROP TABLE x;'')]]) ''x'' [])) \<and>
   Execute (insert_sql ''x'' [''name''] [''%s'']) (Some [JStr ''Alice''])
     \<in> set (snd (insert_data_from_json reliable
          (JArr [JObj [(''name'', JStr ''Alice'')]]) ''x'' [])) \<and>
   insert_sql ''x'' [''name''] [''%s''] =
     insert_sql ''x'' (map fst [(''name'', JStr ''O'Brien; DROP TABLE x;'')])
       (map placeholder_of (map fst [(''name'', JStr ''O'Brien; DROP TABLE x;'')]))"
proof -
  have h1: "map fst [(''name'', JStr ''O'Brien; DROP TABLE x;'')] = map fst [(''name'', JStr ''Alice'')]"
    by simp
  have h2: "Execute (insert_sql ''x'' [''name''] [''%s'']) (Some [JStr ''O'Brien; DROP TABLE x;''])
     \<in> set (snd (insert_data_from_json reliable
          (JArr [JObj [(''name'', JStr ''O'Brien; DROP TABLE x;'')]]) ''x'' []))"
    by (simp add: insert_data_from_json_def seq_def db_call_reliable print_def
         GEOMETRY_HEADERS_def lower_examples)
  have h3: "Execute (insert_sql ''x'' [''name''] [''%s'']) (Some [JStr ''Alice''])
     \<in> set (snd (insert_data_from_json reliable
          (JArr [JObj [(''name'', JStr ''Alice'')]]) ''x'' []))"
    by (simp add: insert_data_from_json_def seq_def db_call_reliable print_def
         GEOMETRY_HEADERS_def lower_examples)
  from insert_statement_independent_of_values [OF h1 h2 h3] h1 h2 h3 show ?thesis by simp
qed

text \<open>
  C10. A load commits at most once, and exactly once when it succeeds. A commit is preceded
  by the inserts of all records, in order. When fewer inserts than records completed,
  because building a parameter tuple or the database raised, the load ends in an error
  without a commit and leaves nothing committed; a record that lacks one of the keys of the
  first record has that effect.
\<close>

theorem load_commits_once_after_all_inserts:
  assumes run: "insert_data_from_json db (JArr (JObj kvs # rest)) t [] = (r, tr)"
  shows "count_list tr Commit \<le> 1 \<and>
    (r = Inr () \<longrightarrow> count_list tr Commit = 1) \<and>
    (Commit \<in> set tr \<longrightarrow>
       takeWhile (\<lambda>e. e \<noteq> Commit) tr =
         [Connect, Cursor] @
         map (\<lambda>entry. Execute (insert_sql t (map fst kvs) (map placeholder_of (map fst kvs)))
                        (Some (values_for entry (map fst kvs)))) (JObj kvs # rest) \<and>
       list_all (has_keys (map fst kvs)) rest) \<and>
    (length (filter is_execute tr) < length (JObj kvs # rest) \<longrightarrow>
       (\<exists>e. r = Inl e) \<and> Commit \<notin> set tr \<and> committed [] tr = []) \<and>
    (\<not> list_all (has_keys (map fst kvs)) rest \<longrightarrow>
       length (filter is_execute tr) < length (JObj kvs # rest))"
proof -
  let ?E = "\<lambda>entry. Execute (insert_sql t (map fst kvs) (map placeholder_of (map fst kvs)))
                      (Some (values_for entry (map fst kvs)))"
  let ?entries = "JObj kvs # rest"
  from insert_run_shape [OF run] obtain pre n suf where
    tr: "tr = pre @ map ?E (take n ?entries) @ suf"
    and pre: "prefix pre [Connect, Cursor]" and suf: "prefix suf (closing t)"
    and n: "n \<le> length ?entries"
    and hk: "list_all (has_keys (map fst kvs)) (take n ?entries)"
    and full: "suf \<noteq> [] \<longrightarrow> n = length ?entries"
    and pre_full: "n \<noteq> 0 \<or> suf \<noteq> [] \<longrightarrow> pre = [Connect, Cursor]"
    and ok: "r = Inr () \<longleftrightarrow> suf = closing t"
    by blast
  note pc = connecting_cases [OF pre] and sc = closing_cases [OF suf]
  have pre_nc: "Commit \<notin> set pre" "filter is_execute pre = []" using pc by auto
  have mid_nc: "Commit \<notin> set (map ?E (take n ?entries))" by auto
  have mid_ex: "filter is_execute (map ?E (take n ?entries)) = map ?E (take n ?entries)"
    by (simp add: filter_map o_def)
  have suf_ex: "filter is_execute suf = []" using sc by (auto simp: closing_def)
  have count_pre: "count_list pre Commit = 0" using pre_nc by (simp add: count_list_0_iff)
  have count_mid: "count_list (map ?E (take n ?entries)) Commit = 0"
    using mid_nc by (simp only: count_list_0_iff not_False_eq_True)
  have count_suf: "count_list suf Commit \<le> 1" using sc by (auto simp: closing_def)
  have executes: "length (filter is_execute tr) = n"
    using n by (simp add: tr pre_nc mid_ex suf_ex del: take_Suc_Cons)
  have c1: "count_list tr Commit \<le> 1"
    using count_pre count_mid count_suf by (simp only: tr count_list_append)
  have c0: "count_list tr Commit = 1" if "r = Inr ()"
  proof -
    from that ok have "count_list suf Commit = 1" by (simp add: closing_def)
    with count_pre count_mid show ?thesis by (simp only: tr count_list_append)
  qed
  have in_suf: "suf \<noteq> [] \<and> hd suf = Commit" if "Commit \<in> set tr"
    using that pre_nc mid_nc sc unfolding tr by (auto simp: closing_def)
  have c2: "takeWhile (\<lambda>e. e \<noteq> Commit) tr = [Connect, Cursor] @ map ?E ?entries \<and>
      list_all (has_keys (map fst kvs)) rest" if "Commit \<in> set tr"
  proof -
    from in_suf [OF that] obtain suf' where suf': "suf = Commit # suf'"
      by (cases suf) auto
    with full pre_full have nn: "n = length ?entries" and pp: "pre = [Connect, Cursor]"
      by simp_all
    have "takeWhile (\<lambda>e. e \<noteq> Commit) (([Connect, Cursor] @ map ?E ?entries) @ Commit # suf')
        = [Connect, Cursor] @ map ?E ?entries"
      by (subst takeWhile_append2) auto
    moreover have "tr = ([Connect, Cursor] @ map ?E ?entries) @ Commit # suf'"
      using tr nn pp suf' by simp
    moreover from hk nn have "list_all (has_keys (map fst kvs)) rest" by simp
    ultimately show ?thesis by simp
  qed
  have c3: "(\<exists>e. r = Inl e) \<and> Commit \<notin> set tr \<and> committed [] tr = []"
    if "length (filter is_execute tr) < length ?entries"
  proof -
    from that executes have "n < length ?entries" by simp
    with full have "suf = []" by auto
    then have "Commit \<notin> set tr" using pre_nc mid_nc tr by simp
    moreover from \<open>suf = []\<close> ok have "r \<noteq> Inr ()" by (simp add: closing_def)
    then have "\<exists>e. r = Inl e" by (cases r) auto
    ultimately show ?thesis by (simp add: committed_without_commit)
  qed
  have c4: "length (filter is_execute tr) < length ?entries"
    if "\<not> list_all (has_keys (map fst kvs)) rest"
  proof (rule ccontr)
    assume "\<not> length (filter is_execute tr) < length ?entries"
    with executes n have "n = length ?entries" by simp
    with hk that show False by simp
  qed
  from c0 c1 c2 c3 c4 show ?thesis by blast
qed

theorem load_commits_once_after_all_inserts_witness:
  "insert_data_from_json reliable
     (JArr [JObj [(''name'', JStr ''X''), (''n'', JInt 1)], JObj [(''name'', JStr ''Y'')]]) ''t'' [] =
     (Inl KeyError,
      [Connect, Cursor,
       Execute (insert_sql ''t'' [''name'', ''n''] [''%s'', ''%s'']) (Some [JStr ''X'', JInt 1])]) \<and>
   \<not> list_all (has_keys (map fst [(''name'', JStr ''X''), (''n'', JInt 1)]))
       [JObj [(''name'', JStr ''Y'')]] \<and>
   Commit \<notin> set (snd (insert_data_from_json reliable
     (JArr [JObj [(''name'', JStr ''X''), (''n'', JInt 1)], JObj [(''name'', JStr ''Y'')]]) ''t'' [])) \<and>
   committed [] (snd (insert_data_from_json reliable
     (JArr [JObj [(''name'', JStr ''X''), (''n'', JInt 1)], JObj [(''name'', JStr ''Y'')]]) ''t'' [])) = [] \<and>
   insert_data_from_json reliable
     (JArr [JObj [(''name'', JStr ''X'')], JObj [(''name'', JStr ''Y'')]]) ''t'' [] =
     (Inr (),
      [Connect, Cursor,
       Execute (insert_sql ''t'' [''name''] [''%s'']) (Some [JStr ''X'']),
       Execute (insert_sql ''t'' [''name''] [''%s'']) (Some [JStr ''Y'']),
       Commit, Cursor_close, Connection_close, Print (Filled_with_data ''t'')]) \<and>
   count_list (snd (insert_data_from_json reliable
     (JArr [JObj [(''name'', JStr ''X'')], JObj [(''name'', JStr ''Y'')]]) ''t'' [])) Commit = 1 \<and>
   takeWhile (\<lambda>e. e \<noteq> Commit) (snd (insert_data_from_json reliable
     (JArr [JObj [(''name'', JStr ''X'')], JObj [(''name'', JStr ''Y'')]]) ''t'' [])) =
     [Connect, Cursor,
      Execute (insert_sql ''t'' [''name''] [''%s'']) (Some [JStr ''X'']),
      Execute (insert_sql ''t'' [''name''] [''%s'']) (Some [JStr ''Y''])]"
proof -
  have run: "insert_data_from_json reliable
     (JArr [JObj [(''name'', JStr ''X''), (''n'', JInt 1)], JObj [(''name'', JStr ''Y'')]]) ''t'' [] =
     (Inl KeyError,
      [Connect, Cursor,
       Execute (insert_sql ''t'' [''name'', ''n''] [''%s'', ''%s'']) (Some [JStr ''X'', JInt 1])])"
    by (simp add: insert_data_from_json_def seq_def db_call_reliable
         GEOMETRY_HEADERS_def lower_examples)
  have h: "\<not> list_all (has_keys (map fst [(''name'', JStr ''X''), (''n'', JInt 1)]))
       [JObj [(''name'', JStr ''Y'')]]"
    by simp
  have good: "insert_data_from_json reliable
     (JArr [JObj [(''name'', JStr ''X'')], JObj [(''name'', JStr ''Y'')]]) ''t'' [] =
     (Inr (),
      [Connect, Cursor,
       Execute (insert_sql ''t'' [''name''] [''%s'']) (Some [JStr ''X'']),
       Execute (insert_sql ''t'' [''name''] [''%s'']) (Some [JStr ''Y'']),
       Commit, Cursor_close, Connection_close, Print (Filled_with_data ''t'')])"
    by (simp add: insert_data_from_json_def seq_def db_call_reliable print_def
         GEOMETRY_HEADERS_def lower_examples)
  from load_commits_once_after_all_inserts [OF run]
    load_commits_once_after_all_inserts [OF good] h run good
  show ?thesis by simp
qed



text \<open>
  C8, amended. For a dataset of N records, N at least 1, without geometry alias in the first
  record, in which every record has all keys of the first record, and a database that
  accepts every call, the load executes exactly N inserts, in record order, the i-th with
  the values that the i-th record has under the keys of the first record, in key order;
  then it commits. Keys that only a later record has contribute nothing.
\<close>

theorem insert_round_trip:
  assumes "\<not> list_ex is_geometry (map fst kvs)"
    and "list_all (has_keys (map fst kvs)) rest"
  shows "insert_data_from_json reliable (JArr (JObj kvs # rest)) t [] =
      (Inr (),
       [Connect, Cursor] @
       map (\<lambda>entry. Execute (insert_sql t (map fst kvs) (map (\<lambda>h. ''%s'') (map fst kvs)))
                      (Some (values_for entry (map fst kvs)))) (JObj kvs # rest) @
       [Commit, Cursor_close, Connection_close, Print (Filled_with_data t)]) \<and>
    length (filter is_execute (snd (insert_data_from_json reliable (JArr (JObj kvs # rest)) t [])))
      = length (JObj kvs # rest) \<and>
    (\<forall>entry \<in> set (JObj kvs # rest).
       length (values_for entry (map fst kvs)) = length kvs \<and>
       (\<forall>i < length kvs.
          subscript entry (fst (kvs ! i)) = Inr (values_for entry (map fst kvs) ! i)))"
proof -
  let ?hs = "map fst kvs"
  let ?E = "\<lambda>entry. Execute (insert_sql t ?hs (map (\<lambda>h. ''%s'') ?hs))
                      (Some (values_for entry ?hs))"
  have run: "insert_data_from_json reliable (JArr (JObj kvs # rest)) t [] =
      (Inr (), [Connect, Cursor] @ map ?E (JObj kvs # rest) @
         [Commit, Cursor_close, Connection_close, Print (Filled_with_data t)])"
    unfolding placeholders_plain [OF assms(1), symmetric]
    by (rule insert_reliable [OF assms(2)])
  have "filter is_execute (map ?E (JObj kvs # rest)) = map ?E (JObj kvs # rest)"
    by (simp add: filter_map o_def)
  then have count: "length (filter is_execute
      (snd (insert_data_from_json reliable (JArr (JObj kvs # rest)) t []))) =
      length (JObj kvs # rest)"
    unfolding run by simp
  have vals: "length (values_for entry ?hs) = length kvs \<and>
      (\<forall>i < length kvs. subscript entry (fst (kvs ! i)) = Inr (values_for entry ?hs ! i))"
    if "entry \<in> set (JObj kvs # rest)" for entry
  proof -
    from that assms(2) have "has_keys ?hs entry"
      using has_keys_first [of kvs] by (auto simp: list_all_iff)
    from build_tuple_nth [OF has_keys_build_tuple [OF this]] show ?thesis by simp
  qed
  from run count vals show ?thesis by blast
qed

theorem insert_round_trip_witness:
  "\<not> list_ex is_geometry (map fst [(''name'', JStr ''X''), (''n'', JInt 1)]) \<and>
   list_all (has_keys (map fst [(''name'', JStr ''X''), (''n'', JInt 1)]))
     [JObj [(''n'', JInt 2), (''extra'', JNull), (''name'', JStr ''Y'')]] \<and>
   insert_data_from_json reliable
     (JArr [JObj [(''name'', JStr ''X''), (''n'', JInt 1)],
            JObj [(''n'', JInt 2), (''extra'', JNull), (''name'', JStr ''Y'')]]) ''t'' [] =
     (Inr (),
      [Connect, Cursor,
       Execute (insert_sql ''t'' [''name'', ''n''] [''%s'', ''%s'']) (Some [JStr ''X'', JInt 1]),
       Execute (insert_sql ''t'' [''name'', ''n''] [''%s'', ''%s'']) (Some [JStr ''Y'', JInt 2]),
       Commit, Cursor_close, Connection_close, Print (Filled_with_data ''t'')])"
proof -
  have h1: "\<not> list_ex is_geometry (map fst [(''name'', JStr ''X''), (''n'', JInt 1)])"
    by (simp add: is_geometry_def GEOMETRY_HEADERS_def lower_examples)
  have h2: "list_all (has_keys (map fst [(''name'', JStr ''X''), (''n'', JInt 1)]))
     [JObj [(''n'', JInt 2), (''extra'', JNull), (''name'', JStr ''Y'')]]"
    by simp
  from insert_round_trip [OF h1 h2, of "''t''"] h1 h2 show ?thesis
    by (simp add: List.map_filter_simps)
qed

text \<open>
  C8 as stated, for every dataset of N records, fails on \<open>[{"a": 1}, {"b": 2}]\<close>: the
  second record lacks the key of the first, the load raises KeyError after one insert of
  two.
\<close>

theorem insert_round_trip_counterexample:
  "\<not> list_ex is_geometry (map fst [(''a'', JInt 1)]) \<and>
   insert_data_from_json reliable
     (JArr [JObj [(''a'', JInt 1)], JObj [(''b'', JInt 2)]]) ''t'' [] =
     (Inl KeyError, [Connect, Cursor, Execute (insert_sql ''t'' [''a''] [''%s'']) (Some [JInt 1])]) \<and>
   length (filter is_execute (snd (insert_data_from_json reliable
     (JArr [JObj [(''a'', JInt 1)], JObj [(''b'', JInt 2)]]) ''t'' []))) \<noteq>
   length [JObj [(''a'', JInt 1)], JObj [(''b'', JInt 2)]]"
  by (simp add: insert_data_from_json_def seq_def db_call_reliable is_geometry_def
       GEOMETRY_HEADERS_def lower_examples)

end
